theory Spec2Isabelle
  imports
    Complex_Main
    "HOL-Library.Multiset"
    "HOL-Library.Char_ord"
    "HOL-Library.List_Lexorder"
begin

section \<open>Todos slice (features/todoSlice.js)\<close>

text \<open>
  A todo as the slice stores it: \<open>{ id, title, completed, userId }\<close>. Identifiers are
  integral JavaScript numbers, modelled as \<open>int\<close>.
\<close>

record todo =
  todo_id :: int
  todo_title :: string
  completed :: bool
  todo_userId :: int

text \<open>
  The slice state \<open>{ list, status, error }\<close>; \<open>error\<close> is \<open>null\<close> (\<open>None\<close>) or a
  message.
\<close>

record todos_state =
  todos_list :: "todo list"
  todos_status :: string
  todos_error :: "string option"

text \<open>
  \<open>Array.prototype.find\<close> hands back a reference to the first element that satisfies
  the predicate, or \<open>undefined\<close>. The reducer writes through that reference, so the
  model returns the position of that element in the array.
\<close>

fun array_find :: "('a \<Rightarrow> bool) \<Rightarrow> 'a list \<Rightarrow> nat option" where
  "array_find P [] = None"
| "array_find P (x # xs) = (if P x then Some 0 else map_option Suc (array_find P xs))"

text \<open>
  \<open>toggleTodo\<close>: find the todo whose id is the payload; if there is one, negate its
  \<open>completed\<close> field in place.
\<close>

definition toggleTodo :: "todos_state \<Rightarrow> int \<Rightarrow> todos_state" where
  "toggleTodo state payload =
     (case array_find (\<lambda>t. todo_id t = payload) (todos_list state) of
        None \<Rightarrow> state
      | Some i \<Rightarrow>
          state\<lparr>todos_list :=
            (todos_list state)
              [i := (todos_list state ! i)\<lparr>completed := \<not> completed (todos_list state ! i)\<rparr>]\<rparr>)"

definition deleteTodo :: "todos_state \<Rightarrow> int \<Rightarrow> todos_state" where
  "deleteTodo state payload =
     state\<lparr>todos_list := filter (\<lambda>t. todo_id t \<noteq> payload) (todos_list state)\<rparr>"

definition clearError :: "todos_state \<Rightarrow> todos_state" where
  "clearError state = state\<lparr>todos_error := None\<rparr>"

text \<open>The three cases of the \<open>fetchTodos\<close> thunk.\<close>

definition fetchTodos_pending :: "todos_state \<Rightarrow> todos_state" where
  "fetchTodos_pending state = state\<lparr>todos_status := ''loading'', todos_error := None\<rparr>"

definition fetchTodos_fulfilled :: "todos_state \<Rightarrow> todo list \<Rightarrow> todos_state" where
  "fetchTodos_fulfilled state payload =
     state\<lparr>todos_status := ''succeeded'', todos_list := payload\<rparr>"

text \<open>
  \<open>action.payload || 'Failed to fetch todos'\<close>: an absent payload (\<open>None\<close>) and the
  empty string are both falsy.
\<close>

definition fetchTodos_rejected :: "todos_state \<Rightarrow> string option \<Rightarrow> todos_state" where
  "fetchTodos_rejected state payload =
     state\<lparr>todos_status := ''failed'',
           todos_error :=
             Some (case payload of
                     None \<Rightarrow> ''Failed to fetch todos''
                   | Some m \<Rightarrow> if m = [] then ''Failed to fetch todos'' else m)\<rparr>"

section \<open>Todo selectors (features/selectors.js)\<close>

definition selectTodos :: "todos_state \<Rightarrow> todo list" where
  "selectTodos state = todos_list state"

definition selectCompletedTodos :: "todos_state \<Rightarrow> todo list" where
  "selectCompletedTodos state = filter (\<lambda>t. completed t) (selectTodos state)"

definition selectTodosCount :: "todos_state \<Rightarrow> nat" where
  "selectTodosCount state = length (selectTodos state)"

definition selectCompletedTodosCount :: "todos_state \<Rightarrow> nat" where
  "selectCompletedTodosCount state = length (selectCompletedTodos state)"

text \<open>
  \<open>Math.round\<close>: the nearest integer, a tie going towards plus infinity.
\<close>

definition Math_round :: "real \<Rightarrow> int" where
  "Math_round x = \<lfloor>x + 1 / 2\<rfloor>"

text \<open>
  The quotient and the product of \<open>(completed / total) * 100\<close> are binary64 operations:
  each returns the exact result rounded to a representable number. The rounding is the
  parameter \<open>fl\<close>. What the proofs use of it is collected in \<open>double_rounding\<close>: it is
  monotone and leaves the representable numbers 0, 1 and 100 as they are. The array
  lengths are below \<open>2 ^ 32\<close> and are represented exactly.
\<close>

definition double_rounding :: "(real \<Rightarrow> real) \<Rightarrow> bool" where
  "double_rounding fl \<longleftrightarrow>
     (\<forall>x y. x \<le> y \<longrightarrow> fl x \<le> fl y) \<and> fl 0 = 0 \<and> fl 1 = 1 \<and> fl 100 = 100"

definition selectTodosCompletionPercentage :: "(real \<Rightarrow> real) \<Rightarrow> todos_state \<Rightarrow> int" where
  "selectTodosCompletionPercentage fl state =
     (let total = selectTodosCount state;
          completedCount = selectCompletedTodosCount state
      in if total > 0
         then Math_round (fl (fl (real completedCount / real total) * 100))
         else 0)"

section \<open>User slice (features/userSlice.js)\<close>

record user_data =
  user_id :: int
  username :: string
  email :: string
  name :: string
  role :: string

text \<open>
  The slice state; \<open>userData\<close>, \<open>token\<close>, \<open>error\<close> and \<open>lastLoginTime\<close> are \<open>null\<close>
  (\<open>None\<close>) or a value.
\<close>

record user_state =
  userData :: "user_data option"
  token :: "string option"
  isAuthenticated :: bool
  isLoading :: bool
  user_error :: "string option"
  loginAttempts :: int
  lastLoginTime :: "string option"

text \<open>
  \<open>String.prototype.includes\<close>: whether the second string occurs in the first as a
  contiguous run of characters, compared exactly (case matters).
\<close>

fun starts_with :: "'a list \<Rightarrow> 'a list \<Rightarrow> bool" where
  "starts_with hay [] = True"
| "starts_with [] (n # ns) = False"
| "starts_with (h # hs) (n # ns) = (h = n \<and> starts_with hs ns)"

fun string_includes :: "'a list \<Rightarrow> 'a list \<Rightarrow> bool" where
  "string_includes [] needle = (needle = [])"
| "string_includes (c # cs) needle = (starts_with (c # cs) needle \<or> string_includes cs needle)"

datatype js_error = TypeError

text \<open>
  The \<open>fetchUserProfile.rejected\<close> case. The thunk rejects with
  \<open>rejectWithValue(error.message)\<close>, so the payload is a string. An absent payload
  (\<open>None\<close>) makes \<open>action.payload.includes\<close> raise a TypeError; the reducer then
  produces no new state.
\<close>

definition fetchUserProfile_rejected :: "user_state \<Rightarrow> string option \<Rightarrow> js_error + user_state" where
  "fetchUserProfile_rejected state payload =
     (case payload of
        None \<Rightarrow> Inl TypeError
      | Some message \<Rightarrow>
          (let state1 = state\<lparr>isLoading := False, user_error := Some message\<rparr>
           in Inr (if string_includes message ''token''
                   then state1\<lparr>isAuthenticated := False, userData := None, token := None\<rparr>
                   else state1)))"

section \<open>Retrying base query (features/apiSlice.js)\<close>

text \<open>
  What \<open>fetchBaseQuery\<close> resolves to: \<open>{ data }\<close> or \<open>{ error }\<close>, where the status of
  an error is the HTTP status of a response that is not 2xx, or one of four strings.
\<close>

datatype fetch_status = HTTP int | FETCH_ERROR | PARSING_ERROR | TIMEOUT_ERROR | CUSTOM_ERROR

record fetch_error =
  status :: fetch_status
  detail :: string

record 'd query_result =
  data :: "'d option"
  error :: "fetch_error option"

text \<open>
  The underlying loader \<open>baseQuery\<close> talks to the network: it is a function of the
  request and of the state of the world \<open>'w\<close>, returning its result and the world after
  the call. \<open>baseQueryWithRetry\<close> awaits it once, and once more when the first result
  carries an error whose status is \<open>'FETCH_ERROR'\<close>; it returns the last result.
\<close>

type_synonym ('a, 'p, 'x, 'd, 'w) base_query =
  "'a \<Rightarrow> 'p \<Rightarrow> 'x \<Rightarrow> 'w \<Rightarrow> 'd query_result \<times> 'w"

definition baseQueryWithRetry ::
  "('a, 'p, 'x, 'd, 'w) base_query \<Rightarrow> 'a \<Rightarrow> 'p \<Rightarrow> 'x \<Rightarrow> 'w \<Rightarrow> 'd query_result \<times> 'w" where
  "baseQueryWithRetry baseQuery args api extraOptions w =
     (let (result, w1) = baseQuery args api extraOptions w
      in if (case error result of None \<Rightarrow> False | Some e \<Rightarrow> status e = FETCH_ERROR)
         then baseQuery args api extraOptions w1
         else (result, w1))"

text \<open>
  To count invocations, a loader is run on a world paired with a counter that every
  call increments.
\<close>

definition counted ::
  "('a, 'p, 'x, 'd, 'w) base_query \<Rightarrow> ('a, 'p, 'x, 'd, nat \<times> 'w) base_query" where
  "counted baseQuery args api extraOptions nw =
     (let (result, w1) = baseQuery args api extraOptions (snd nw)
      in (result, (Suc (fst nw), w1)))"

section \<open>Posts selectors (features/selectors.js)\<close>

text \<open>
  The text of a post and the search term are arbitrary JavaScript strings: sequences
  of UTF-16 code units, here natural numbers. \<open>utf16\<close> gives the code units of a
  literal written with ASCII characters.
\<close>

type_synonym js_string = "nat list"

definition utf16 :: "string \<Rightarrow> js_string" where
  "utf16 s = map of_char s"

text \<open>
  A post \<open>{ id, userId, title, body }\<close> and the two parts of the posts slice that the
  selectors read. \<open>search\<close> is \<open>None\<close> when the field is absent.
\<close>

record post =
  post_id :: int
  userId :: int
  title :: js_string
  body :: js_string

record filters =
  search :: "js_string option"
  category :: string
  sortBy :: string
  sortOrder :: string

record pagination =
  currentPage :: int
  itemsPerPage :: int

text \<open>
  \<open>String.prototype.toLowerCase\<close> applies the case mapping of Unicode, which is the
  engine's and not the repository's: the functions below take it as the parameter
  \<open>toLowerCase\<close>, and the general theorems hold for every such function. One instance
  is modelled, to run the selector on concrete text: \<open>ascii_toLowerCase\<close> is what
  \<open>toLowerCase\<close> does on a string whose code units are all ASCII (below 128), where it
  maps \<open>A\<close> to \<open>Z\<close> onto \<open>a\<close> to \<open>z\<close> and leaves every other code unit as it is.
  It is only applied to such strings.
\<close>

definition lower_unit :: "nat \<Rightarrow> nat" where
  "lower_unit c = (if 65 \<le> c \<and> c \<le> 90 then c + 32 else c)"

definition ascii_toLowerCase :: "js_string \<Rightarrow> js_string" where
  "ascii_toLowerCase s = map lower_unit s"

text \<open>
  The values the comparator compares: a lower-cased title, a user id, or a \<open>Date\<close>
  made from the post id. \<open>new Date(n)\<close> holds the time value \<open>n\<close> when
  \<open>|n| \<le> 8.64e15\<close>, and is an invalid date (time value NaN, here \<open>None\<close>) otherwise.
\<close>

datatype js_value = Str js_string | Num int | Date "int option"

definition new_Date :: "int \<Rightarrow> js_value" where
  "new_Date n = Date (if \<bar>n\<bar> \<le> 8640000000000000 then Some n else None)"

text \<open>
  \<open>x > y\<close> and \<open>x < y\<close>: strings are compared code unit by code unit, numbers by
  value, dates by their time values; every comparison with NaN is false. The
  comparator only ever compares two values of the same kind.
\<close>

fun js_greater :: "js_value \<Rightarrow> js_value \<Rightarrow> bool" where
  "js_greater (Str x) (Str y) = (y < x)"
| "js_greater (Num x) (Num y) = (y < x)"
| "js_greater (Date (Some x)) (Date (Some y)) = (y < x)"
| "js_greater _ _ = False"

definition js_less :: "js_value \<Rightarrow> js_value \<Rightarrow> bool" where
  "js_less x y = js_greater y x"

text \<open>The \<open>switch\<close> on \<open>filters.sortBy\<close>, with \<open>'date'\<close> as the default.\<close>

definition sort_value :: "(js_string \<Rightarrow> js_string) \<Rightarrow> filters \<Rightarrow> post \<Rightarrow> js_value" where
  "sort_value toLowerCase filters p =
     (if sortBy filters = ''title'' then Str (toLowerCase (title p))
      else if sortBy filters = ''author'' then Num (userId p)
      else new_Date (post_id p))"

text \<open>The comparison function given to \<open>filtered.sort\<close>.\<close>

definition compare_posts ::
  "(js_string \<Rightarrow> js_string) \<Rightarrow> filters \<Rightarrow> post \<Rightarrow> post \<Rightarrow> int" where
  "compare_posts toLowerCase filters a b =
     (let aValue = sort_value toLowerCase filters a; bValue = sort_value toLowerCase filters b
      in if sortOrder filters = ''asc''
         then (if js_greater aValue bValue then 1 else - 1)
         else (if js_less aValue bValue then 1 else - 1))"

subsection \<open>Array.prototype.sort\<close>

text \<open>
  \<open>Array.prototype.sort\<close> is the engine's, not the repository's: the selector below
  takes it as a parameter. The language leaves the order of the result to the engine
  when the comparison function is not consistent, and the one above is not: it never
  returns 0. All that the general theorems ask of an engine is that its sort returns
  the elements it was given, in some order.
\<close>

type_synonym 'a array_sort = "('a \<Rightarrow> 'a \<Rightarrow> int) \<Rightarrow> 'a list \<Rightarrow> 'a list"

definition keeps_elements :: "'a array_sort \<Rightarrow> bool" where
  "keeps_elements array_sort \<longleftrightarrow> (\<forall>comparefn xs. mset (array_sort comparefn xs) = mset xs)"

text \<open>
  One engine is modelled, to run the selector on concrete arrays: \<open>v8_sort\<close> is the
  sort of V8 (Node.js, Chrome) for an array of fewer than 64 elements, where its
  TimSort treats the whole array as one run. \<open>CountAndMakeRun\<close> finds the longest
  ascending or strictly descending run at the start of the array and reverses it when
  it descends, and \<open>BinaryInsertionSort\<close> inserts each remaining element into the
  sorted part, at the position a binary search gives. (Arrays of 64 elements or more
  are cut by V8 into several such runs, which it merges; \<open>v8_sort\<close> is only run on
  shorter arrays.)
\<close>

function count_run :: "('a \<Rightarrow> 'a \<Rightarrow> int) \<Rightarrow> 'a list \<Rightarrow> bool \<Rightarrow> nat \<Rightarrow> nat \<Rightarrow> nat" where
  "count_run comparefn work isDescending idx runLength =
     (if idx < length work then
        (let order = comparefn (work ! idx) (work ! (idx - 1))
         in if (if isDescending then order \<ge> 0 else order < 0) then runLength
            else count_run comparefn work isDescending (idx + 1) (runLength + 1))
      else runLength)"
  by pat_completeness auto
termination
  by (relation "measure (\<lambda>(comparefn, work, isDescending, idx, runLength). length work - idx)")
    auto

definition CountAndMakeRun :: "('a \<Rightarrow> 'a \<Rightarrow> int) \<Rightarrow> 'a list \<Rightarrow> 'a list \<times> nat" where
  "CountAndMakeRun comparefn work =
     (if length work = 1 then (work, 1)
      else
        (let order = comparefn (work ! 1) (work ! 0);
             isDescending = order < 0;
             runLength = count_run comparefn work isDescending 2 2
         in (if isDescending then rev (take runLength work) @ drop runLength work else work,
             runLength)))"

function find_insertion_point ::
  "('a \<Rightarrow> 'a \<Rightarrow> int) \<Rightarrow> 'a list \<Rightarrow> 'a \<Rightarrow> nat \<Rightarrow> nat \<Rightarrow> nat" where
  "find_insertion_point comparefn work pivot left right =
     (if left < right then
        (let mid = left + (right - left) div 2;
             order = comparefn pivot (work ! mid)
         in if order < 0 then find_insertion_point comparefn work pivot left mid
            else find_insertion_point comparefn work pivot (mid + 1) right)
      else left)"
  by pat_completeness auto
termination
  by (relation "measure (\<lambda>(comparefn, work, pivot, left, right). right - left)") auto

function BinaryInsertionSort ::
  "('a \<Rightarrow> 'a \<Rightarrow> int) \<Rightarrow> 'a list \<Rightarrow> nat \<Rightarrow> nat \<Rightarrow> 'a list" where
  "BinaryInsertionSort comparefn work start high =
     (if start < high then
        (let pivot = work ! start;
             left = find_insertion_point comparefn work pivot 0 start
         in BinaryInsertionSort comparefn
              (take left work @ pivot # drop left (take start work) @ drop (Suc start) work)
              (Suc start) high)
      else work)"
  by pat_completeness auto
termination
  by (relation "measure (\<lambda>(comparefn, work, start, high). high - start)") auto

text \<open>
  The three loops are unfolded by hand in the proofs, one iteration at a time.
\<close>

declare count_run.simps [simp del]
declare find_insertion_point.simps [simp del]
declare BinaryInsertionSort.simps [simp del]

definition v8_sort :: "'a array_sort" where
  "v8_sort comparefn xs =
     (if length xs < 2 then xs
      else
        (let (work, runLength) = CountAndMakeRun comparefn xs
         in if runLength < length xs
            then BinaryInsertionSort comparefn work runLength (length xs)
            else work))"

subsection \<open>selectFilteredPosts and selectPaginatedPosts\<close>

text \<open>
  The result function of \<open>selectFilteredPosts\<close>: copy the posts; keep the posts whose
  lower-cased title or body includes the lower-cased search term, when the term is
  truthy (present and not empty); the category branch is empty in the source; sort
  with the engine's \<open>array_sort\<close>. Lower-casing is the engine's \<open>toLowerCase\<close>.
\<close>

definition selectFilteredPosts ::
  "post array_sort \<Rightarrow> (js_string \<Rightarrow> js_string) \<Rightarrow> post list \<Rightarrow> filters \<Rightarrow> post list" where
  "selectFilteredPosts array_sort toLowerCase posts filters =
     (let filtered = posts;
          filtered =
            (case search filters of
               None \<Rightarrow> filtered
             | Some term \<Rightarrow>
                 if term = [] then filtered
                 else
                   (let searchLower = toLowerCase term
                    in filter (\<lambda>p. string_includes (toLowerCase (title p)) searchLower \<or>
                                   string_includes (toLowerCase (body p)) searchLower)
                         filtered));
          filtered = (if category filters \<noteq> ''all'' then filtered else filtered)
      in array_sort (compare_posts toLowerCase filters) filtered)"

text \<open>
  \<open>Array.prototype.slice(start, end)\<close> on integral arguments: a negative index counts
  from the end of the array, both indices are clamped to the array, and nothing is
  returned when the end does not lie after the start.
\<close>

definition array_slice :: "'a list \<Rightarrow> int \<Rightarrow> int \<Rightarrow> 'a list" where
  "array_slice xs start end =
     (let len = int (length xs);
          k = (if start < 0 then max (len + start) 0 else min start len);
          final = (if end < 0 then max (len + end) 0 else min end len)
      in take (nat (final - k)) (drop (nat k) xs))"

definition selectPaginatedPosts :: "'a list \<Rightarrow> pagination \<Rightarrow> 'a list" where
  "selectPaginatedPosts filtered pg =
     (let startIndex = (currentPage pg - 1) * itemsPerPage pg;
          endIndex = startIndex + itemsPerPage pg
      in array_slice filtered startIndex endIndex)"

section \<open>Properties of the todos slice\<close>

lemma array_find_None: "array_find P xs = None \<longleftrightarrow> (\<forall>x \<in> set xs. \<not> P x)"
  by (induction xs) auto

lemma array_find_Some:
  "array_find P xs = Some i \<Longrightarrow> i < length xs \<and> P (xs ! i) \<and> (\<forall>j < i. \<not> P (xs ! j))"
proof (induction xs arbitrary: i)
  case Nil
  then show ?case by simp
next
  case (Cons x xs)
  show ?case
  proof (cases "P x")
    case True
    with Cons.prems show ?thesis by simp
  next
    case False
    with Cons.prems obtain k where k: "array_find P xs = Some k" "i = Suc k"
      by auto
    from Cons.IH [OF k(1)] False k(2) show ?thesis
      by (auto simp: less_Suc_eq_0_disj)
  qed
qed

lemma array_find_cong_update:
  assumes "array_find P xs = Some i" and "P y"
  shows "array_find P (xs[i := y]) = Some i"
  using assms
proof (induction xs arbitrary: i)
  case Nil
  then show ?case by simp
next
  case (Cons x xs)
  show ?case
  proof (cases "P x")
    case True
    with Cons.prems show ?thesis by simp
  next
    case False
    with Cons.prems obtain k where k: "array_find P xs = Some k" "i = Suc k"
      by auto
    from Cons.IH [OF k(1) Cons.prems(2)] False k(2) show ?thesis
      by simp
  qed
qed

lemma toggleTodo_absent:
  "payload \<notin> todo_id ` set (todos_list state) \<Longrightarrow> toggleTodo state payload = state"
proof -
  assume "payload \<notin> todo_id ` set (todos_list state)"
  then have "array_find (\<lambda>t. todo_id t = payload) (todos_list state) = None"
    by (auto simp: array_find_None)
  then show ?thesis by (simp add: toggleTodo_def)
qed

lemma toggleTodo_twice: "toggleTodo (toggleTodo state payload) payload = state"
proof (cases "array_find (\<lambda>t. todo_id t = payload) (todos_list state)")
  case None
  then show ?thesis by (simp add: toggleTodo_def)
next
  case (Some i)
  let ?xs = "todos_list state"
  let ?t = "?xs ! i"
  let ?t' = "?t\<lparr>completed := \<not> completed ?t\<rparr>"
  from array_find_Some [OF Some] have i: "i < length ?xs" and m: "todo_id ?t = payload"
    by auto
  have once: "toggleTodo state payload = state\<lparr>todos_list := ?xs[i := ?t']\<rparr>"
    using Some by (simp add: toggleTodo_def)
  have again: "array_find (\<lambda>t. todo_id t = payload) (?xs[i := ?t']) = Some i"
    using array_find_cong_update [OF Some, of ?t'] m by simp
  have "toggleTodo (state\<lparr>todos_list := ?xs[i := ?t']\<rparr>) payload
          = state\<lparr>todos_list := ?xs[i := ?t]\<rparr>"
    using again i by (simp add: toggleTodo_def)
  also have "\<dots> = state" by simp
  finally show ?thesis using once by simp
qed

lemma toggleTodo_frame:
  "todos_status (toggleTodo state payload) = todos_status state \<and>
   todos_error (toggleTodo state payload) = todos_error state \<and>
   length (todos_list (toggleTodo state payload)) = length (todos_list state)"
  by (simp add: toggleTodo_def split: option.splits)

lemma toggleTodo_elements:
  assumes "j < length (todos_list state)"
  shows "todos_list (toggleTodo state payload) ! j = todos_list state ! j \<or>
         (todo_id (todos_list state ! j) = payload \<and>
          todos_list (toggleTodo state payload) ! j =
            (todos_list state ! j)\<lparr>completed := \<not> completed (todos_list state ! j)\<rparr> \<and>
          (\<forall>k < length (todos_list state). k \<noteq> j \<longrightarrow>
             todos_list (toggleTodo state payload) ! k = todos_list state ! k))"
proof (cases "array_find (\<lambda>t. todo_id t = payload) (todos_list state)")
  case None
  then show ?thesis by (simp add: toggleTodo_def)
next
  case (Some i)
  from array_find_Some [OF Some] have "i < length (todos_list state)"
    and "todo_id (todos_list state ! i) = payload" by auto
  with Some assms show ?thesis
    by (cases "j = i") (simp_all add: toggleTodo_def)
qed

text \<open>
  C6: reducing \<open>fetchTodos.rejected\<close> leaves \<open>state.todos.list\<close> equal to its value
  before; the status becomes \<open>'failed'\<close> and the error becomes the payload, or the
  default message when the payload is falsy. Nothing else of the state changes.
\<close>

theorem fetchTodos_rejected_keeps_list:
  "todos_list (fetchTodos_rejected state payload) = todos_list state \<and>
   todos_status (fetchTodos_rejected state payload) = ''failed'' \<and>
   todos_error (fetchTodos_rejected state payload) =
     Some (case payload of
             None \<Rightarrow> ''Failed to fetch todos''
           | Some m \<Rightarrow> if m = [] then ''Failed to fetch todos'' else m) \<and>
   todos_state.more (fetchTodos_rejected state payload) = todos_state.more state"
  by (simp add: fetchTodos_rejected_def)

lemma array_find_first:
  "i < length xs \<Longrightarrow> P (xs ! i) \<Longrightarrow> (\<forall>j < i. \<not> P (xs ! j)) \<Longrightarrow> array_find P xs = Some i"
proof (induction xs arbitrary: i)
  case Nil
  then show ?case by simp
next
  case (Cons x xs)
  show ?case
  proof (cases i)
    case 0
    with Cons.prems show ?thesis by simp
  next
    case (Suc k)
    with Cons.prems have x: "\<not> P x" by auto
    have "k < length xs" "P (xs ! k)" using Cons.prems Suc by simp_all
    moreover have "\<forall>j < k. \<not> P (xs ! j)"
    proof (intro allI impI)
      fix j assume "j < k"
      then have "Suc j < i" using Suc by simp
      with Cons.prems(3) have "\<not> P ((x # xs) ! Suc j)" by blast
      then show "\<not> P (xs ! j)" by simp
    qed
    ultimately have "array_find P xs = Some k" by (rule Cons.IH)
    with x Suc show ?thesis by simp
  qed
qed

lemma toggleTodo_first_match:
  assumes "i < length (todos_list state)"
    and "todo_id (todos_list state ! i) = payload"
    and "\<forall>j < i. todo_id (todos_list state ! j) \<noteq> payload"
  shows "toggleTodo state payload =
           state\<lparr>todos_list :=
             (todos_list state)
               [i := (todos_list state ! i)\<lparr>completed := \<not> completed (todos_list state ! i)\<rparr>]\<rparr>"
proof -
  have "array_find (\<lambda>t. todo_id t = payload) (todos_list state) = Some i"
    using assms by (intro array_find_first) simp_all
  then show ?thesis by (simp add: toggleTodo_def)
qed

lemma toggleTodo_present:
  assumes "payload \<in> todo_id ` set (todos_list state)"
  shows "\<exists>i < length (todos_list state).
           todo_id (todos_list state ! i) = payload \<and>
           (\<forall>j < i. todo_id (todos_list state ! j) \<noteq> payload) \<and>
           completed (todos_list (toggleTodo state payload) ! i) =
             (\<not> completed (todos_list state ! i)) \<and>
           toggleTodo state payload \<noteq> state"
proof -
  from assms have "array_find (\<lambda>t. todo_id t = payload) (todos_list state) \<noteq> None"
    by (auto simp: array_find_None)
  then obtain i where f: "array_find (\<lambda>t. todo_id t = payload) (todos_list state) = Some i"
    by auto
  from array_find_Some [OF f] have i: "i < length (todos_list state)"
    and m: "todo_id (todos_list state ! i) = payload"
    and b: "\<forall>j < i. todo_id (todos_list state ! j) \<noteq> payload"
    by auto
  have c: "completed (todos_list (toggleTodo state payload) ! i) =
      (\<not> completed (todos_list state ! i))"
    using f i by (simp add: toggleTodo_def)
  then have "todos_list (toggleTodo state payload) \<noteq> todos_list state" by auto
  then have "toggleTodo state payload \<noteq> state" by auto
  with i m b c show ?thesis by blast
qed

text \<open>
  C9: \<open>toggleTodo\<close> applied twice with the same id gives back the state it started
  from; with an id that no todo of the list has it changes nothing. With an id that
  some todo has, it changes the state: the result is the state in which the first
  todo with that id, and nothing else, has its \<open>completed\<close> flag negated. One
  application keeps the status, the error and the length of the list, and alters at
  most one element of the list, a todo with the given id, of which only \<open>completed\<close>
  is negated.
\<close>

theorem toggleTodo_involution:
  "toggleTodo (toggleTodo state payload) payload = state \<and>
   (payload \<notin> todo_id ` set (todos_list state) \<longrightarrow> toggleTodo state payload = state) \<and>
   (payload \<in> todo_id ` set (todos_list state) \<longrightarrow>
      (\<exists>i < length (todos_list state).
         todo_id (todos_list state ! i) = payload \<and>
         (\<forall>j < i. todo_id (todos_list state ! j) \<noteq> payload) \<and>
         completed (todos_list (toggleTodo state payload) ! i) =
           (\<not> completed (todos_list state ! i)) \<and>
         toggleTodo state payload \<noteq> state)) \<and>
   (\<forall>i. i < length (todos_list state) \<and>
        todo_id (todos_list state ! i) = payload \<and>
        (\<forall>j < i. todo_id (todos_list state ! j) \<noteq> payload) \<longrightarrow>
        toggleTodo state payload =
          state\<lparr>todos_list :=
            (todos_list state)
              [i := (todos_list state ! i)\<lparr>completed := \<not> completed (todos_list state ! i)\<rparr>]\<rparr>) \<and>
   todos_status (toggleTodo state payload) = todos_status state \<and>
   todos_error (toggleTodo state payload) = todos_error state \<and>
   length (todos_list (toggleTodo state payload)) = length (todos_list state) \<and>
   (\<forall>j < length (todos_list state).
      todos_list (toggleTodo state payload) ! j = todos_list state ! j \<or>
      (todo_id (todos_list state ! j) = payload \<and>
       todos_list (toggleTodo state payload) ! j =
         (todos_list state ! j)\<lparr>completed := \<not> completed (todos_list state ! j)\<rparr> \<and>
       (\<forall>k < length (todos_list state). k \<noteq> j \<longrightarrow>
          todos_list (toggleTodo state payload) ! k = todos_list state ! k)))"
proof -
  have first: "\<forall>i. i < length (todos_list state) \<and>
        todo_id (todos_list state ! i) = payload \<and>
        (\<forall>j < i. todo_id (todos_list state ! j) \<noteq> payload) \<longrightarrow>
        toggleTodo state payload =
          state\<lparr>todos_list :=
            (todos_list state)
              [i := (todos_list state ! i)\<lparr>completed := \<not> completed (todos_list state ! i)\<rparr>]\<rparr>"
    using toggleTodo_first_match [of _ state payload] by blast
  have present: "payload \<in> todo_id ` set (todos_list state) \<longrightarrow>
      (\<exists>i < length (todos_list state).
         todo_id (todos_list state ! i) = payload \<and>
         (\<forall>j < i. todo_id (todos_list state ! j) \<noteq> payload) \<and>
         completed (todos_list (toggleTodo state payload) ! i) =
           (\<not> completed (todos_list state ! i)) \<and>
         toggleTodo state payload \<noteq> state)"
    using toggleTodo_present [of payload state] by blast
  have absent: "payload \<notin> todo_id ` set (todos_list state) \<longrightarrow> toggleTodo state payload = state"
    using toggleTodo_absent [of payload state] by blast
  have elems: "\<forall>j < length (todos_list state).
      todos_list (toggleTodo state payload) ! j = todos_list state ! j \<or>
      (todo_id (todos_list state ! j) = payload \<and>
       todos_list (toggleTodo state payload) ! j =
         (todos_list state ! j)\<lparr>completed := \<not> completed (todos_list state ! j)\<rparr> \<and>
       (\<forall>k < length (todos_list state). k \<noteq> j \<longrightarrow>
          todos_list (toggleTodo state payload) ! k = todos_list state ! k))"
    using toggleTodo_elements [of _ state payload] by blast
  from toggleTodo_twice [of state payload] absent present first
    toggleTodo_frame [of state payload] elems
  show ?thesis by (intro conjI) (simp_all only:)
qed

text \<open>
  The witness toggles the second of two todos, toggles it back, and toggles an id
  that is absent; each result is read off the theorem.
\<close>

theorem toggleTodo_involution_witness:
  "toggleTodo
     \<lparr>todos_list =
        [\<lparr>todo_id = 1, todo_title = ''a'', completed = False, todo_userId = 1\<rparr>,
         \<lparr>todo_id = 2, todo_title = ''b'', completed = True, todo_userId = 1\<rparr>],
      todos_status = ''idle'', todos_error = None\<rparr> 2 =
     \<lparr>todos_list =
        [\<lparr>todo_id = 1, todo_title = ''a'', completed = False, todo_userId = 1\<rparr>,
         \<lparr>todo_id = 2, todo_title = ''b'', completed = False, todo_userId = 1\<rparr>],
      todos_status = ''idle'', todos_error = None\<rparr> \<and>
   toggleTodo
     (toggleTodo
        \<lparr>todos_list =
           [\<lparr>todo_id = 1, todo_title = ''a'', completed = False, todo_userId = 1\<rparr>,
            \<lparr>todo_id = 2, todo_title = ''b'', completed = True, todo_userId = 1\<rparr>],
         todos_status = ''idle'', todos_error = None\<rparr> 2) 2 =
     \<lparr>todos_list =
        [\<lparr>todo_id = 1, todo_title = ''a'', completed = False, todo_userId = 1\<rparr>,
         \<lparr>todo_id = 2, todo_title = ''b'', completed = True, todo_userId = 1\<rparr>],
      todos_status = ''idle'', todos_error = None\<rparr> \<and>
   (2::int) \<in> todo_id ` set
     [\<lparr>todo_id = 1, todo_title = ''a'', completed = False, todo_userId = 1\<rparr>,
      \<lparr>todo_id = 2, todo_title = ''b'', completed = True, todo_userId = 1\<rparr>] \<and>
   (7::int) \<notin> todo_id ` set
     [\<lparr>todo_id = 1, todo_title = ''a'', completed = False, todo_userId = 1\<rparr>,
      \<lparr>todo_id = 2, todo_title = ''b'', completed = True, todo_userId = 1\<rparr>] \<and>
   toggleTodo
     \<lparr>todos_list =
        [\<lparr>todo_id = 1, todo_title = ''a'', completed = False, todo_userId = 1\<rparr>,
         \<lparr>todo_id = 2, todo_title = ''b'', completed = True, todo_userId = 1\<rparr>],
      todos_status = ''idle'', todos_error = None\<rparr> 7 =
     \<lparr>todos_list =
        [\<lparr>todo_id = 1, todo_title = ''a'', completed = False, todo_userId = 1\<rparr>,
         \<lparr>todo_id = 2, todo_title = ''b'', completed = True, todo_userId = 1\<rparr>],
      todos_status = ''idle'', todos_error = None\<rparr>"
proof -
  let ?s = "\<lparr>todos_list =
           [\<lparr>todo_id = 1, todo_title = ''a'', completed = False, todo_userId = 1\<rparr>,
            \<lparr>todo_id = 2, todo_title = ''b'', completed = True, todo_userId = 1\<rparr>],
         todos_status = ''idle'', todos_error = None\<rparr>"
  have present: "(2::int) \<in> todo_id ` set (todos_list ?s)" by simp
  have absent: "(7::int) \<notin> todo_id ` set (todos_list ?s)" by simp
  have pos: "(1::nat) < length (todos_list ?s) \<and> todo_id (todos_list ?s ! 1) = 2 \<and>
      (\<forall>j < (1::nat). todo_id (todos_list ?s ! j) \<noteq> 2)"
    by simp
  from toggleTodo_involution [of ?s 2]
  have "\<forall>i. i < length (todos_list ?s) \<and> todo_id (todos_list ?s ! i) = 2 \<and>
        (\<forall>j < i. todo_id (todos_list ?s ! j) \<noteq> 2) \<longrightarrow>
        toggleTodo ?s 2 =
          ?s\<lparr>todos_list :=
            (todos_list ?s)
              [i := (todos_list ?s ! i)\<lparr>completed := \<not> completed (todos_list ?s ! i)\<rparr>]\<rparr>"
    by (elim conjE)
  from this [rule_format, of 1, OF pos]
  have once: "toggleTodo ?s 2 =
     \<lparr>todos_list =
        [\<lparr>todo_id = 1, todo_title = ''a'', completed = False, todo_userId = 1\<rparr>,
         \<lparr>todo_id = 2, todo_title = ''b'', completed = False, todo_userId = 1\<rparr>],
      todos_status = ''idle'', todos_error = None\<rparr>"
    by simp
  from toggleTodo_involution [of ?s 2] have twice: "toggleTodo (toggleTodo ?s 2) 2 = ?s"
    by (elim conjE)
  from toggleTodo_involution [of ?s 7] absent have noop: "toggleTodo ?s 7 = ?s"
    by blast
  from once twice present absent noop show ?thesis by simp
qed

text \<open>
  C10: the completion percentage is an integer from 0 to 100, and it is 0 when the
  list of todos is empty. The bound holds for every rounding of the two floating-point
  operations that is monotone and exact on 0, 1 and 100, as binary64 rounding is.
\<close>

theorem selectTodosCompletionPercentage_range:
  assumes "double_rounding fl"
  shows "0 \<le> selectTodosCompletionPercentage fl state \<and>
         selectTodosCompletionPercentage fl state \<le> 100 \<and>
         (todos_list state = [] \<longrightarrow> selectTodosCompletionPercentage fl state = 0)"
proof -
  let ?t = "selectTodosCount state" and ?c = "selectCompletedTodosCount state"
  have le: "?c \<le> ?t"
    by (simp add: selectCompletedTodosCount_def selectTodosCount_def selectCompletedTodos_def)
  from assms have mono: "\<And>x y. x \<le> y \<Longrightarrow> fl x \<le> fl y"
    and f0: "fl 0 = 0" and f1: "fl 1 = 1" and f100: "fl 100 = 100"
    by (auto simp: double_rounding_def)
  show ?thesis
  proof (cases "?t > 0")
    case False
    then show ?thesis
      by (simp add: selectTodosCompletionPercentage_def Let_def)
  next
    case True
    let ?q = "real ?c / real ?t"
    have q: "0 \<le> ?q" "?q \<le> 1" using le True by simp_all
    have "fl 0 \<le> fl ?q" "fl ?q \<le> fl 1" using q mono by blast+
    then have p: "0 \<le> fl ?q * 100" "fl ?q * 100 \<le> 100" using f0 f1 by simp_all
    have "fl 0 \<le> fl (fl ?q * 100)" "fl (fl ?q * 100) \<le> fl 100" using p mono by blast+
    then have r: "0 \<le> fl (fl ?q * 100)" "fl (fl ?q * 100) \<le> 100"
      using f0 f100 by simp_all
    have "0 \<le> Math_round (fl (fl ?q * 100))" "Math_round (fl (fl ?q * 100)) \<le> 100"
      using r unfolding Math_round_def by linarith+
    moreover have "todos_list state \<noteq> []"
      using True by (auto simp add: selectTodosCount_def selectTodos_def)
    ultimately show ?thesis
      using True by (simp add: selectTodosCompletionPercentage_def Let_def)
  qed
qed

theorem selectTodosCompletionPercentage_range_witness:
  "double_rounding (\<lambda>x. x) \<and>
   selectTodosCompletionPercentage (\<lambda>x. x)
     \<lparr>todos_list =
        [\<lparr>todo_id = 1, todo_title = ''a'', completed = True, todo_userId = 1\<rparr>,
         \<lparr>todo_id = 2, todo_title = ''b'', completed = False, todo_userId = 1\<rparr>,
         \<lparr>todo_id = 3, todo_title = ''c'', completed = True, todo_userId = 1\<rparr>],
      todos_status = ''idle'', todos_error = None\<rparr> = 67 \<and>
   (0::int) \<le> 67 \<and> (67::int) \<le> 100 \<and>
   selectTodosCompletionPercentage (\<lambda>x. x)
     \<lparr>todos_list = [], todos_status = ''idle'', todos_error = None\<rparr> = 0"
proof -
  let ?s = "\<lparr>todos_list =
        [\<lparr>todo_id = 1, todo_title = ''a'', completed = True, todo_userId = 1\<rparr>,
         \<lparr>todo_id = 2, todo_title = ''b'', completed = False, todo_userId = 1\<rparr>,
         \<lparr>todo_id = 3, todo_title = ''c'', completed = True, todo_userId = 1\<rparr>],
      todos_status = ''idle'', todos_error = None\<rparr>"
  let ?e = "\<lparr>todos_list = [], todos_status = ''idle'', todos_error = None\<rparr>"
  have h: "double_rounding (\<lambda>x. x)" by (simp add: double_rounding_def)
  have v: "selectTodosCompletionPercentage (\<lambda>x. x) ?s = 67"
    by (simp add: selectTodosCompletionPercentage_def Let_def selectTodosCount_def
        selectCompletedTodosCount_def selectCompletedTodos_def selectTodos_def Math_round_def)
  from selectTodosCompletionPercentage_range [OF h, of ?e]
  have "selectTodosCompletionPercentage (\<lambda>x. x) ?e = 0" by simp
  with h v show ?thesis by simp
qed

section \<open>Properties of the user slice\<close>

lemma starts_with_iff: "starts_with hay needle \<longleftrightarrow> (\<exists>v. hay = needle @ v)"
  by (induction hay needle rule: starts_with.induct) auto

lemma string_includes_iff: "string_includes hay needle \<longleftrightarrow> (\<exists>u v. hay = u @ needle @ v)"
proof (induction hay)
  case Nil
  then show ?case by auto
next
  case (Cons c cs)
  show ?case
  proof
    assume "string_includes (c # cs) needle"
    then consider "starts_with (c # cs) needle" | "string_includes cs needle" by auto
    then show "\<exists>u v. c # cs = u @ needle @ v"
    proof cases
      case 1
      then obtain v where "c # cs = needle @ v" by (auto simp: starts_with_iff)
      then have "c # cs = [] @ needle @ v" by simp
      then show ?thesis by blast
    next
      case 2
      with Cons.IH obtain u v where "cs = u @ needle @ v" by auto
      then have "c # cs = (c # u) @ needle @ v" by simp
      then show ?thesis by blast
    qed
  next
    assume "\<exists>u v. c # cs = u @ needle @ v"
    then obtain u v where uv: "c # cs = u @ needle @ v" by auto
    show "string_includes (c # cs) needle"
    proof (cases u)
      case Nil
      with uv have "starts_with (c # cs) needle" by (auto simp: starts_with_iff)
      then show ?thesis by simp
    next
      case (Cons a u')
      with uv have "cs = u' @ needle @ v" by simp
      with Cons.IH have "string_includes cs needle" by blast
      then show ?thesis by simp
    qed
  qed
qed

text \<open>
  C8: when \<open>fetchUserProfile.rejected\<close> is reduced with an error message, the user is
  logged out (\<open>isAuthenticated\<close> false, \<open>userData\<close> and \<open>token\<close> null) exactly when the
  message contains the substring \<open>token\<close>; otherwise only \<open>isLoading\<close> and \<open>error\<close>
  are updated. In both cases \<open>isLoading\<close> becomes false and \<open>error\<close> the message.
\<close>

theorem fetchUserProfile_rejected_logout:
  "((\<exists>u v. message = u @ ''token'' @ v) \<longrightarrow>
      fetchUserProfile_rejected state (Some message) =
        Inr (state\<lparr>isLoading := False, user_error := Some message,
                   isAuthenticated := False, userData := None, token := None\<rparr>)) \<and>
   (\<not> (\<exists>u v. message = u @ ''token'' @ v) \<longrightarrow>
      fetchUserProfile_rejected state (Some message) =
        Inr (state\<lparr>isLoading := False, user_error := Some message\<rparr>))"
  by (simp add: fetchUserProfile_rejected_def string_includes_iff Let_def)

theorem fetchUserProfile_rejected_logout_witness:
  "(\<exists>u v. ''No authentication token'' = u @ ''token'' @ v) \<and>
   fetchUserProfile_rejected
     \<lparr>userData = Some \<lparr>user_id = 1, username = ''john_doe'', email = ''john@example.com'',
                        name = ''John Doe'', role = ''admin''\<rparr>,
      token = Some ''mock_token_1_0'', isAuthenticated = True, isLoading = True,
      user_error = None, loginAttempts = 0, lastLoginTime = Some ''2024-01-01''\<rparr>
     (Some ''No authentication token'') =
   Inr \<lparr>userData = None, token = None, isAuthenticated = False, isLoading = False,
        user_error = Some ''No authentication token'', loginAttempts = 0,
        lastLoginTime = Some ''2024-01-01''\<rparr> \<and>
   \<not> (\<exists>u v. ''Token expired'' = u @ ''token'' @ v) \<and>
   fetchUserProfile_rejected
     \<lparr>userData = Some \<lparr>user_id = 1, username = ''john_doe'', email = ''john@example.com'',
                        name = ''John Doe'', role = ''admin''\<rparr>,
      token = Some ''mock_token_1_0'', isAuthenticated = True, isLoading = True,
      user_error = None, loginAttempts = 0, lastLoginTime = Some ''2024-01-01''\<rparr>
     (Some ''Token expired'') =
   Inr \<lparr>userData = Some \<lparr>user_id = 1, username = ''john_doe'', email = ''john@example.com'',
                           name = ''John Doe'', role = ''admin''\<rparr>,
        token = Some ''mock_token_1_0'', isAuthenticated = True, isLoading = False,
        user_error = Some ''Token expired'', loginAttempts = 0,
        lastLoginTime = Some ''2024-01-01''\<rparr>"
proof -
  let ?s = "\<lparr>userData = Some \<lparr>user_id = 1, username = ''john_doe'', email = ''john@example.com'',
                        name = ''John Doe'', role = ''admin''\<rparr>,
      token = Some ''mock_token_1_0'', isAuthenticated = True, isLoading = True,
      user_error = None, loginAttempts = 0, lastLoginTime = Some ''2024-01-01''\<rparr>"
  have "string_includes ''No authentication token'' ''token''" by simp
  then have h1: "\<exists>u v. ''No authentication token'' = u @ ''token'' @ v"
    using string_includes_iff [of "''No authentication token''" "''token''"] by blast
  have "\<not> string_includes ''Token expired'' ''token''" by simp
  then have h2: "\<not> (\<exists>u v. ''Token expired'' = u @ ''token'' @ v)"
    using string_includes_iff [of "''Token expired''" "''token''"] by blast
  from fetchUserProfile_rejected_logout [of "''No authentication token''" ?s] h1
  have r1: "fetchUserProfile_rejected ?s (Some ''No authentication token'') =
      Inr (?s\<lparr>isLoading := False, user_error := Some ''No authentication token'',
               isAuthenticated := False, userData := None, token := None\<rparr>)"
    by blast
  from fetchUserProfile_rejected_logout [of "''Token expired''" ?s] h2
  have r2: "fetchUserProfile_rejected ?s (Some ''Token expired'') =
      Inr (?s\<lparr>isLoading := False, user_error := Some ''Token expired''\<rparr>)"
    by blast
  from h1 h2 r1 r2 show ?thesis by simp
qed

section \<open>Properties of the retrying base query\<close>

text \<open>
  C7: \<open>baseQueryWithRetry\<close> invokes the loader twice when the first result carries an
  error with status \<open>'FETCH_ERROR'\<close>, and once otherwise; in particular a first result
  whose error status is an HTTP status is not retried. It returns the result of the
  last invocation, and counting the invocations does not change what is returned.
\<close>

theorem baseQueryWithRetry_invocations:
  "(let r1 = fst (baseQuery args api extraOptions w);
        w1 = snd (baseQuery args api extraOptions w);
        out = baseQueryWithRetry (counted baseQuery) args api extraOptions (0, w)
    in ((\<exists>e. error r1 = Some e \<and> status e = FETCH_ERROR) \<longrightarrow>
          out = (fst (baseQuery args api extraOptions w1),
                 (2, snd (baseQuery args api extraOptions w1)))) \<and>
       (\<not> (\<exists>e. error r1 = Some e \<and> status e = FETCH_ERROR) \<longrightarrow> out = (r1, (1, w1))) \<and>
       (\<forall>e c. error r1 = Some e \<and> status e = HTTP c \<longrightarrow> out = (r1, (1, w1))) \<and>
       baseQueryWithRetry baseQuery args api extraOptions w = (fst out, snd (snd out)))"
  by (auto simp: baseQueryWithRetry_def counted_def Let_def split: prod.splits option.splits)

text \<open>
  The witness runs a loader that answers from a script, the list of results still to
  come: a transport failure followed by a success is asked twice, a 404 is asked once.
\<close>

theorem baseQueryWithRetry_invocations_witness:
  "baseQueryWithRetry
     (counted (\<lambda>(a::unit) (p::unit) (x::unit) (w::nat query_result list).
        (case w of [] \<Rightarrow> \<lparr>data = Some 0, error = None\<rparr> | r # rs \<Rightarrow> r, tl w)))
     () () ()
     (0, [\<lparr>data = None, error = Some \<lparr>status = FETCH_ERROR, detail = ''Failed to fetch''\<rparr>\<rparr>,
          \<lparr>data = Some 5, error = None\<rparr>]) =
   (\<lparr>data = Some 5, error = None\<rparr>, (2, [])) \<and>
   baseQueryWithRetry
     (counted (\<lambda>(a::unit) (p::unit) (x::unit) (w::nat query_result list).
        (case w of [] \<Rightarrow> \<lparr>data = Some 0, error = None\<rparr> | r # rs \<Rightarrow> r, tl w)))
     () () ()
     (0, [\<lparr>data = None, error = Some \<lparr>status = HTTP 404, detail = ''Not Found''\<rparr>\<rparr>,
          \<lparr>data = Some 5, error = None\<rparr>]) =
   (\<lparr>data = None, error = Some \<lparr>status = HTTP 404, detail = ''Not Found''\<rparr>\<rparr>,
    (1, [\<lparr>data = Some 5, error = None\<rparr>]))"
proof -
  let ?bq = "\<lambda>(a::unit) (p::unit) (x::unit) (w::nat query_result list).
        (case w of [] \<Rightarrow> \<lparr>data = Some 0, error = None\<rparr> | r # rs \<Rightarrow> r, tl w)"
  let ?f = "\<lparr>data = None, error = Some \<lparr>status = FETCH_ERROR, detail = ''Failed to fetch''\<rparr>\<rparr>"
  let ?n = "\<lparr>data = None, error = Some \<lparr>status = HTTP 404, detail = ''Not Found''\<rparr>\<rparr>"
  let ?ok = "\<lparr>data = Some (5::nat), error = None\<rparr>"
  have first: "\<exists>e. error (fst (?bq () () () [?f, ?ok])) = Some e \<and> status e = FETCH_ERROR"
    by simp
  have http: "error (fst (?bq () () () [?n, ?ok])) = Some \<lparr>status = HTTP 404, detail = ''Not Found''\<rparr>
      \<and> status \<lparr>status = HTTP 404, detail = ''Not Found''\<rparr> = HTTP 404"
    by simp
  from baseQueryWithRetry_invocations [of ?bq "()" "()" "()" "[?f, ?ok]"] first
  have a: "baseQueryWithRetry (counted ?bq) () () () (0, [?f, ?ok]) = (?ok, (2, []))"
    by (simp add: Let_def)
  from baseQueryWithRetry_invocations [of ?bq "()" "()" "()" "[?n, ?ok]"] http
  have b: "baseQueryWithRetry (counted ?bq) () () () (0, [?n, ?ok]) = (?n, (1, [?ok]))"
    by (simp add: Let_def)
  from a b show ?thesis by simp
qed

section \<open>Properties of the posts selectors\<close>

subsection \<open>The sort returns a permutation of its input\<close>

lemma find_insertion_point_bounds:
  "left \<le> right \<Longrightarrow>
   left \<le> find_insertion_point comparefn work pivot left right \<and>
   find_insertion_point comparefn work pivot left right \<le> right"
proof (induction comparefn work pivot left right rule: find_insertion_point.induct)
  case (1 comparefn work pivot left right)
  show ?case
  proof (cases "left < right")
    case False
    with "1.prems" show ?thesis by (subst (1 2) find_insertion_point.simps) simp
  next
    case True
    let ?mid = "left + (right - left) div 2"
    have mid: "left \<le> ?mid" "?mid < right" using True by auto
    show ?thesis
    proof (cases "comparefn pivot (work ! ?mid) < 0")
      case neg: True
      from "1.IH"(1) [OF True refl refl neg] mid
      have "left \<le> find_insertion_point comparefn work pivot left ?mid \<and>
            find_insertion_point comparefn work pivot left ?mid \<le> ?mid" by simp
      moreover have "find_insertion_point comparefn work pivot left right =
            find_insertion_point comparefn work pivot left ?mid"
        using True neg by (subst find_insertion_point.simps) (simp add: Let_def)
      ultimately show ?thesis using mid by linarith
    next
      case nonneg: False
      from "1.IH"(2) [OF True refl refl nonneg] mid
      have "?mid + 1 \<le> find_insertion_point comparefn work pivot (?mid + 1) right \<and>
            find_insertion_point comparefn work pivot (?mid + 1) right \<le> right" by simp
      moreover have "find_insertion_point comparefn work pivot left right =
            find_insertion_point comparefn work pivot (?mid + 1) right"
        using True nonneg by (subst find_insertion_point.simps) (simp add: Let_def)
      ultimately show ?thesis using mid by linarith
    qed
  qed
qed

lemma insert_pivot_mset:
  assumes "left \<le> start" and "start < length work"
  shows "mset (take left work @ work ! start # drop left (take start work) @ drop (Suc start) work)
           = mset work"
    and "length (take left work @ work ! start # drop left (take start work) @ drop (Suc start) work)
           = length work"
proof -
  have "take left work = take left (take start work)" using assms by (simp add: min_def)
  then have a: "mset (take left work) + mset (drop left (take start work)) = mset (take start work)"
    by (metis append_take_drop_id mset_append)
  have "work = take start work @ work ! start # drop (Suc start) work"
    using assms(2) by (simp add: id_take_nth_drop)
  then have "mset work = mset (take start work @ work ! start # drop (Suc start) work)"
    by (rule arg_cong)
  then have b: "mset work =
      mset (take start work) + ({#work ! start#} + mset (drop (Suc start) work))"
    by simp
  have "mset (take left work @ work ! start # drop left (take start work) @ drop (Suc start) work)
      = (mset (take left work) + mset (drop left (take start work))) +
        ({#work ! start#} + mset (drop (Suc start) work))"
    by simp
  also have "\<dots> = mset work" by (simp only: a b)
  finally show "mset (take left work @ work ! start # drop left (take start work) @ drop (Suc start) work)
           = mset work" .
  show "length (take left work @ work ! start # drop left (take start work) @ drop (Suc start) work)
           = length work"
    using assms by simp
qed

lemma BinaryInsertionSort_mset:
  "high \<le> length work \<Longrightarrow> mset (BinaryInsertionSort comparefn work start high) = mset work"
proof (induction comparefn work start high rule: BinaryInsertionSort.induct)
  case (1 comparefn work start high)
  show ?case
  proof (cases "start < high")
    case False
    then show ?thesis by (subst BinaryInsertionSort.simps) simp
  next
    case True
    let ?left = "find_insertion_point comparefn work (work ! start) 0 start"
    let ?work' = "take ?left work @ work ! start # drop ?left (take start work) @ drop (Suc start) work"
    have l: "?left \<le> start" using find_insertion_point_bounds [of 0 start] by simp
    have s: "start < length work" using True "1.prems" by simp
    note ins = insert_pivot_mset [OF l s]
    have "mset (BinaryInsertionSort comparefn ?work' (Suc start) high) = mset ?work'"
      using "1.IH" [OF True refl refl] "1.prems" ins(2) by simp
    moreover have "BinaryInsertionSort comparefn work start high =
        BinaryInsertionSort comparefn ?work' (Suc start) high"
      using True by (subst BinaryInsertionSort.simps) (simp add: Let_def)
    ultimately show ?thesis using ins(1) by simp
  qed
qed

lemma CountAndMakeRun_mset:
  "mset (fst (CountAndMakeRun comparefn work)) = mset work \<and>
   length (fst (CountAndMakeRun comparefn work)) = length work"
proof -
  have "mset (rev (take n work) @ drop n work) = mset work" for n
    by (metis append_take_drop_id mset_append mset_rev)
  moreover have "length (rev (take n work) @ drop n work) = length work" for n
    by simp
  ultimately show ?thesis
    by (simp add: CountAndMakeRun_def Let_def del: mset_append length_append)
qed

lemma v8_sort_mset: "mset (v8_sort comparefn xs) = mset xs"
proof (cases "CountAndMakeRun comparefn xs")
  case (Pair work runLength)
  with CountAndMakeRun_mset [of comparefn xs]
  have w: "mset work = mset xs" "length work = length xs" by simp_all
  then have "mset (BinaryInsertionSort comparefn work runLength (length xs)) = mset xs"
    using BinaryInsertionSort_mset [of "length xs" work comparefn runLength] by simp
  with Pair w show ?thesis by (simp add: v8_sort_def)
qed

lemma v8_sort_keeps_elements: "keeps_elements v8_sort"
  by (simp add: keeps_elements_def v8_sort_mset)

subsection \<open>Slices with indices that are not negative\<close>

lemma array_slice_nonneg:
  assumes "0 \<le> start" and "0 \<le> n"
  shows "array_slice xs start (start + n) = take (nat n) (drop (nat start) xs)"
proof (cases "start \<le> int (length xs)")
  case True
  have "take (nat (min (start + n) (int (length xs)) - start)) (drop (nat start) xs)
      = take (nat n) (drop (nat start) xs)"
  proof (cases "start + n \<le> int (length xs)")
    case le: True
    then show ?thesis by (simp add: min_def)
  next
    case False
    then have "min (start + n) (int (length xs)) = int (length xs)" by simp
    moreover have "length (drop (nat start) xs) = nat (int (length xs) - start)"
      using assms True by simp
    moreover have "nat (int (length xs) - start) \<le> nat n" using False by linarith
    ultimately show ?thesis by simp
  qed
  with True assms show ?thesis by (simp add: array_slice_def Let_def min_def)
next
  case False
  with assms have "drop (nat start) xs = []" by simp
  with False assms show ?thesis by (simp add: array_slice_def Let_def min_def)
qed

subsection \<open>Filtering and sorting\<close>

text \<open>
  C1, as amended: \<open>selectFilteredPosts\<close> returns the posts it keeps in the order the
  sort step gives them, not in input order. With an empty or absent search term it
  keeps every post, so the result is a permutation of the input; with a search term
  it keeps exactly the posts whose title or body, lower-cased by \<open>toLowerCase\<close>,
  contains the term lower-cased by \<open>toLowerCase\<close>, each as often as the input has it.
  This holds for all text, whatever \<open>toLowerCase\<close> the engine has, and on every
  engine whose sort returns the elements it was given.
\<close>

theorem selectFilteredPosts_contents:
  assumes "keeps_elements array_sort"
  shows
  "((search filters = None \<or> search filters = Some []) \<longrightarrow>
      selectFilteredPosts array_sort toLowerCase posts filters =
        array_sort (compare_posts toLowerCase filters) posts \<and>
      mset (selectFilteredPosts array_sort toLowerCase posts filters) = mset posts) \<and>
   (\<forall>term. search filters = Some term \<and> term \<noteq> [] \<longrightarrow>
      selectFilteredPosts array_sort toLowerCase posts filters =
        array_sort (compare_posts toLowerCase filters)
          (filter (\<lambda>p. (\<exists>u v. toLowerCase (title p) = u @ toLowerCase term @ v) \<or>
                         (\<exists>u v. toLowerCase (body p) = u @ toLowerCase term @ v)) posts) \<and>
      mset (selectFilteredPosts array_sort toLowerCase posts filters) =
        mset (filter (\<lambda>p. (\<exists>u v. toLowerCase (title p) = u @ toLowerCase term @ v) \<or>
                            (\<exists>u v. toLowerCase (body p) = u @ toLowerCase term @ v)) posts))"
proof -
  from assms have perm: "\<And>comparefn xs. mset (array_sort comparefn xs) = mset xs"
    by (simp add: keeps_elements_def)
  show ?thesis
    by (auto simp: selectFilteredPosts_def Let_def perm string_includes_iff)
qed

text \<open>
  The witness searches three posts for \<open>WOR\<close>, sorted by date descending, on V8: the
  theorem gives the result as the sort of the posts that match, which are the second
  (by its title) and the third (by its body).
\<close>

theorem selectFilteredPosts_contents_witness:
  "keeps_elements (v8_sort :: post array_sort) \<and>
   search \<lparr>search = Some (utf16 ''WOR''), category = ''all'', sortBy = ''date'', sortOrder = ''desc''\<rparr> = Some (utf16 ''WOR'') \<and> utf16 ''WOR'' \<noteq> [] \<and>
   selectFilteredPosts v8_sort ascii_toLowerCase
     [\<lparr>post_id = 1, userId = 1, title = utf16 ''Hello'', body = utf16 ''first post''\<rparr>,
      \<lparr>post_id = 2, userId = 1, title = utf16 ''World'', body = utf16 ''second post''\<rparr>,
      \<lparr>post_id = 3, userId = 2, title = utf16 ''Other'', body = utf16 ''a new world''\<rparr>]
     \<lparr>search = Some (utf16 ''WOR''), category = ''all'', sortBy = ''date'', sortOrder = ''desc''\<rparr> =
     [\<lparr>post_id = 3, userId = 2, title = utf16 ''Other'', body = utf16 ''a new world''\<rparr>,
      \<lparr>post_id = 2, userId = 1, title = utf16 ''World'', body = utf16 ''second post''\<rparr>] \<and>
   mset (selectFilteredPosts v8_sort ascii_toLowerCase
     [\<lparr>post_id = 1, userId = 1, title = utf16 ''Hello'', body = utf16 ''first post''\<rparr>,
      \<lparr>post_id = 2, userId = 1, title = utf16 ''World'', body = utf16 ''second post''\<rparr>,
      \<lparr>post_id = 3, userId = 2, title = utf16 ''Other'', body = utf16 ''a new world''\<rparr>]
     \<lparr>search = Some (utf16 ''WOR''), category = ''all'', sortBy = ''date'', sortOrder = ''desc''\<rparr>) =
     mset (filter (\<lambda>p. (\<exists>u v. ascii_toLowerCase (title p) = u @ ascii_toLowerCase (utf16 ''WOR'') @ v) \<or>
                  (\<exists>u v. ascii_toLowerCase (body p) = u @ ascii_toLowerCase (utf16 ''WOR'') @ v))
             [\<lparr>post_id = 1, userId = 1, title = utf16 ''Hello'', body = utf16 ''first post''\<rparr>,
      \<lparr>post_id = 2, userId = 1, title = utf16 ''World'', body = utf16 ''second post''\<rparr>,
      \<lparr>post_id = 3, userId = 2, title = utf16 ''Other'', body = utf16 ''a new world''\<rparr>]) \<and>
   search \<lparr>search = Some [], category = ''all'', sortBy = ''date'', sortOrder = ''desc''\<rparr> = Some [] \<and>
   mset (selectFilteredPosts v8_sort ascii_toLowerCase
     [\<lparr>post_id = 1, userId = 1, title = utf16 ''Hello'', body = utf16 ''first post''\<rparr>,
      \<lparr>post_id = 2, userId = 1, title = utf16 ''World'', body = utf16 ''second post''\<rparr>,
      \<lparr>post_id = 3, userId = 2, title = utf16 ''Other'', body = utf16 ''a new world''\<rparr>]
     \<lparr>search = Some [], category = ''all'', sortBy = ''date'', sortOrder = ''desc''\<rparr>) =
     mset [\<lparr>post_id = 1, userId = 1, title = utf16 ''Hello'', body = utf16 ''first post''\<rparr>,
      \<lparr>post_id = 2, userId = 1, title = utf16 ''World'', body = utf16 ''second post''\<rparr>,
      \<lparr>post_id = 3, userId = 2, title = utf16 ''Other'', body = utf16 ''a new world''\<rparr>]"
proof -
  let ?ps = "[\<lparr>post_id = 1, userId = 1, title = utf16 ''Hello'', body = utf16 ''first post''\<rparr>,
      \<lparr>post_id = 2, userId = 1, title = utf16 ''World'', body = utf16 ''second post''\<rparr>,
      \<lparr>post_id = 3, userId = 2, title = utf16 ''Other'', body = utf16 ''a new world''\<rparr>]"
  let ?f = "\<lparr>search = Some (utf16 ''WOR''), category = ''all'', sortBy = ''date'', sortOrder = ''desc''\<rparr>"
  let ?g = "\<lparr>search = Some [], category = ''all'', sortBy = ''date'', sortOrder = ''desc''\<rparr>"
  let ?match = "(\<lambda>p. (\<exists>u v. ascii_toLowerCase (title p) = u @ ascii_toLowerCase (utf16 ''WOR'') @ v) \<or>
                  (\<exists>u v. ascii_toLowerCase (body p) = u @ ascii_toLowerCase (utf16 ''WOR'') @ v))"
  have h: "search ?f = Some (utf16 ''WOR'') \<and> utf16 ''WOR'' \<noteq> []"
    by (simp add: utf16_def)
  have h0: "search ?g = None \<or> search ?g = Some []" by simp
  note inst = selectFilteredPosts_contents [OF v8_sort_keeps_elements,
      where toLowerCase = ascii_toLowerCase and posts = "?ps"]
  from inst [where filters = "?f"] h
  have eq: "selectFilteredPosts v8_sort ascii_toLowerCase ?ps ?f =
      v8_sort (compare_posts ascii_toLowerCase ?f) (filter ?match ?ps)"
    and a: "mset (selectFilteredPosts v8_sort ascii_toLowerCase ?ps ?f) =
      mset (filter ?match ?ps)"
    by blast+
  have "filter ?match ?ps =
      filter (\<lambda>p. string_includes (ascii_toLowerCase (title p))
                       (ascii_toLowerCase (utf16 ''WOR'')) \<or>
                     string_includes (ascii_toLowerCase (body p))
                       (ascii_toLowerCase (utf16 ''WOR''))) ?ps"
    by (simp only: string_includes_iff)
  also have "\<dots> =
     [\<lparr>post_id = 2, userId = 1, title = utf16 ''World'', body = utf16 ''second post''\<rparr>,
      \<lparr>post_id = 3, userId = 2, title = utf16 ''Other'', body = utf16 ''a new world''\<rparr>]"
    by (simp add: ascii_toLowerCase_def lower_unit_def utf16_def)
  finally have flt: "filter ?match ?ps =
     [\<lparr>post_id = 2, userId = 1, title = utf16 ''World'', body = utf16 ''second post''\<rparr>,
      \<lparr>post_id = 3, userId = 2, title = utf16 ''Other'', body = utf16 ''a new world''\<rparr>]" .
  have srt: "v8_sort (compare_posts ascii_toLowerCase ?f)
     [\<lparr>post_id = 2, userId = 1, title = utf16 ''World'', body = utf16 ''second post''\<rparr>,
      \<lparr>post_id = 3, userId = 2, title = utf16 ''Other'', body = utf16 ''a new world''\<rparr>] =
     [\<lparr>post_id = 3, userId = 2, title = utf16 ''Other'', body = utf16 ''a new world''\<rparr>,
      \<lparr>post_id = 2, userId = 1, title = utf16 ''World'', body = utf16 ''second post''\<rparr>]"
    by (simp add: v8_sort_def CountAndMakeRun_def compare_posts_def sort_value_def
        js_less_def new_Date_def count_run.simps)
  from eq flt srt have run: "selectFilteredPosts v8_sort ascii_toLowerCase ?ps ?f =
     [\<lparr>post_id = 3, userId = 2, title = utf16 ''Other'', body = utf16 ''a new world''\<rparr>,
      \<lparr>post_id = 2, userId = 1, title = utf16 ''World'', body = utf16 ''second post''\<rparr>]"
    by (simp only:)
  from inst [where filters = "?g"] h0
  have b: "mset (selectFilteredPosts v8_sort ascii_toLowerCase ?ps ?g) = mset ?ps"
    by blast
  from v8_sort_keeps_elements h run a b show ?thesis by simp
qed

text \<open>
  C1 as stated fails: with an empty search term the result is not the input in its
  order. Two posts in descending order of id, sorted by date ascending, come out
  in ascending order of id.
\<close>

theorem selectFilteredPosts_reorders_counterexample:
  "search \<lparr>search = Some [], category = ''all'', sortBy = ''date'', sortOrder = ''asc''\<rparr> = Some [] \<and>
   selectFilteredPosts v8_sort ascii_toLowerCase
     [\<lparr>post_id = 2, userId = 1, title = utf16 ''b'', body = utf16 ''y''\<rparr>,
      \<lparr>post_id = 1, userId = 1, title = utf16 ''a'', body = utf16 ''x''\<rparr>]
     \<lparr>search = Some [], category = ''all'', sortBy = ''date'', sortOrder = ''asc''\<rparr> \<noteq>
     [\<lparr>post_id = 2, userId = 1, title = utf16 ''b'', body = utf16 ''y''\<rparr>,
      \<lparr>post_id = 1, userId = 1, title = utf16 ''a'', body = utf16 ''x''\<rparr>]"
  by (simp add: selectFilteredPosts_def v8_sort_def CountAndMakeRun_def compare_posts_def
      sort_value_def js_less_def new_Date_def count_run.simps)

text \<open>
  Ties: the comparison function never returns 0, and on two posts with equal sort
  values it returns \<open>-1\<close> in either order. V8 swaps a pair whose second element
  compares below the first, so there a pair of posts with equal sort values comes out
  swapped.
\<close>

lemma js_greater_irrefl: "\<not> js_greater v v"
proof (cases v)
  case (Date t)
  then show ?thesis by (cases t) simp_all
qed simp_all

lemma compare_posts_tie:
  "sort_value toLowerCase filters a = sort_value toLowerCase filters b \<Longrightarrow>
   compare_posts toLowerCase filters a b = - 1"
  by (simp add: compare_posts_def Let_def js_less_def js_greater_irrefl)

lemma compare_posts_never_zero: "compare_posts toLowerCase filters a b \<noteq> 0"
  by (simp add: compare_posts_def Let_def)

lemma v8_sort_pair_negative:
  "comparefn b a < 0 \<Longrightarrow> v8_sort comparefn [a, b] = [b, a]"
  by (simp add: v8_sort_def CountAndMakeRun_def count_run.simps)

lemma selectFilteredPosts_tie_pair:
  assumes "sort_value toLowerCase filters a = sort_value toLowerCase filters b"
    and "search filters = None"
  shows "selectFilteredPosts v8_sort toLowerCase [a, b] filters = [b, a]"
proof -
  have "compare_posts toLowerCase filters b a < 0"
    using compare_posts_tie [of toLowerCase filters b a] assms(1) by simp
  then show ?thesis
    using assms(2) by (simp add: selectFilteredPosts_def v8_sort_pair_negative)
qed

text \<open>
  C2: on two posts of the same author, sorted by author, the comparison function
  answers \<open>-1\<close> whichever post comes first: it never returns 0, so it tells the sort
  that each of the two precedes the other. On V8 the sort then swaps them: the two
  posts do not keep their input order.
\<close>

theorem selectFilteredPosts_ties_reversed:
  "compare_posts ascii_toLowerCase
     \<lparr>search = None, category = ''all'', sortBy = ''author'', sortOrder = ''asc''\<rparr>
     \<lparr>post_id = 1, userId = 1, title = utf16 ''a'', body = utf16 ''x''\<rparr>
     \<lparr>post_id = 2, userId = 1, title = utf16 ''b'', body = utf16 ''y''\<rparr> = - 1 \<and>
   compare_posts ascii_toLowerCase
     \<lparr>search = None, category = ''all'', sortBy = ''author'', sortOrder = ''asc''\<rparr>
     \<lparr>post_id = 2, userId = 1, title = utf16 ''b'', body = utf16 ''y''\<rparr>
     \<lparr>post_id = 1, userId = 1, title = utf16 ''a'', body = utf16 ''x''\<rparr> = - 1 \<and>
   selectFilteredPosts v8_sort ascii_toLowerCase
     [\<lparr>post_id = 1, userId = 1, title = utf16 ''a'', body = utf16 ''x''\<rparr>,
      \<lparr>post_id = 2, userId = 1, title = utf16 ''b'', body = utf16 ''y''\<rparr>]
     \<lparr>search = None, category = ''all'', sortBy = ''author'', sortOrder = ''asc''\<rparr> =
     [\<lparr>post_id = 2, userId = 1, title = utf16 ''b'', body = utf16 ''y''\<rparr>,
      \<lparr>post_id = 1, userId = 1, title = utf16 ''a'', body = utf16 ''x''\<rparr>]"
  by (simp add: selectFilteredPosts_def v8_sort_def CountAndMakeRun_def compare_posts_def
      sort_value_def js_less_def count_run.simps)

subsection \<open>Pagination\<close>

text \<open>
  C3: for a page number of at least 1 and a page size that is not negative,
  \<open>selectPaginatedPosts\<close> returns the elements from index \<open>(page - 1) * pageSize\<close>
  up to, and not including, index \<open>(page - 1) * pageSize + pageSize\<close>, cut at the end
  of the collection; a page that starts at or beyond the end is empty.
\<close>

theorem selectPaginatedPosts_slice:
  assumes "1 \<le> currentPage pg" and "0 \<le> itemsPerPage pg"
  shows "selectPaginatedPosts xs pg =
           take (nat (itemsPerPage pg)) (drop (nat ((currentPage pg - 1) * itemsPerPage pg)) xs) \<and>
         length (selectPaginatedPosts xs pg) =
           min (nat (itemsPerPage pg)) (length xs - nat ((currentPage pg - 1) * itemsPerPage pg)) \<and>
         (\<forall>i < length (selectPaginatedPosts xs pg).
            selectPaginatedPosts xs pg ! i = xs ! (nat ((currentPage pg - 1) * itemsPerPage pg) + i)) \<and>
         (int (length xs) \<le> (currentPage pg - 1) * itemsPerPage pg \<longrightarrow>
            selectPaginatedPosts xs pg = [])"
proof -
  let ?s = "(currentPage pg - 1) * itemsPerPage pg"
  have s: "0 \<le> ?s" using assms by simp
  have eq: "selectPaginatedPosts xs pg = take (nat (itemsPerPage pg)) (drop (nat ?s) xs)"
    using array_slice_nonneg [OF s assms(2)] by (simp add: selectPaginatedPosts_def Let_def)
  have "int (length xs) \<le> ?s \<Longrightarrow> drop (nat ?s) xs = []" by simp
  with eq show ?thesis by (auto simp: min_def)
qed

theorem selectPaginatedPosts_slice_witness:
  "(1::int) \<le> currentPage \<lparr>currentPage = 1, itemsPerPage = 10\<rparr> \<and>
   (0::int) \<le> itemsPerPage \<lparr>currentPage = 1, itemsPerPage = 10\<rparr> \<and>
   selectPaginatedPosts
     [0, 1, 2, 3, 4, 5, 6, 7, 8, 9, 10, 11, 12, 13, 14, 15, 16, 17, 18, 19, 20, 21, 22, 23, 24 :: nat]
     \<lparr>currentPage = 1, itemsPerPage = 10\<rparr> = [0, 1, 2, 3, 4, 5, 6, 7, 8, 9] \<and>
   selectPaginatedPosts
     [0, 1, 2, 3, 4, 5, 6, 7, 8, 9, 10, 11, 12, 13, 14, 15, 16, 17, 18, 19, 20, 21, 22, 23, 24 :: nat]
     \<lparr>currentPage = 3, itemsPerPage = 10\<rparr> = [20, 21, 22, 23, 24] \<and>
   selectPaginatedPosts
     [0, 1, 2, 3, 4, 5, 6, 7, 8, 9, 10, 11, 12, 13, 14, 15, 16, 17, 18, 19, 20, 21, 22, 23, 24 :: nat]
     \<lparr>currentPage = 4, itemsPerPage = 10\<rparr> = []"
proof -
  let ?xs = "[0, 1, 2, 3, 4, 5, 6, 7, 8, 9, 10, 11, 12, 13, 14, 15, 16, 17, 18, 19, 20, 21, 22, 23, 24 :: nat]"
  have p1: "(1::int) \<le> currentPage \<lparr>currentPage = 1, itemsPerPage = 10\<rparr>"
    and p3: "(1::int) \<le> currentPage \<lparr>currentPage = 3, itemsPerPage = 10\<rparr>"
    and p4: "(1::int) \<le> currentPage \<lparr>currentPage = 4, itemsPerPage = 10\<rparr>"
    by simp_all
  have s1: "(0::int) \<le> itemsPerPage \<lparr>currentPage = 1, itemsPerPage = 10\<rparr>"
    and s3: "(0::int) \<le> itemsPerPage \<lparr>currentPage = 3, itemsPerPage = 10\<rparr>"
    and s4: "(0::int) \<le> itemsPerPage \<lparr>currentPage = 4, itemsPerPage = 10\<rparr>"
    by simp_all
  from selectPaginatedPosts_slice [OF p1 s1, of ?xs]
  have a: "selectPaginatedPosts ?xs \<lparr>currentPage = 1, itemsPerPage = 10\<rparr> =
      [0, 1, 2, 3, 4, 5, 6, 7, 8, 9]"
    by simp
  from selectPaginatedPosts_slice [OF p3 s3, of ?xs]
  have b: "selectPaginatedPosts ?xs \<lparr>currentPage = 3, itemsPerPage = 10\<rparr> =
      [20, 21, 22, 23, 24]"
    by simp
  from selectPaginatedPosts_slice [OF p4 s4, of ?xs]
  have c: "selectPaginatedPosts ?xs \<lparr>currentPage = 4, itemsPerPage = 10\<rparr> = []"
    by simp
  from p1 s1 a b c show ?thesis by simp
qed

text \<open>
  C4, as amended: for a page number below 1 and a page size that is not negative,
  \<open>selectPaginatedPosts\<close> neither rejects nor clamps; it hands the indices to \<open>slice\<close>.
  Page 0 gives the empty sequence. A page number below 0 gives two negative indices,
  which \<open>slice\<close> counts from the end of the collection: the result is the elements
  from index \<open>max (len + start) 0\<close> up to, not including, index \<open>max (len + end) 0\<close>.
\<close>

theorem selectPaginatedPosts_page_below_one:
  assumes "currentPage pg < 1" and "0 \<le> itemsPerPage pg"
  shows "(currentPage pg = 0 \<longrightarrow> selectPaginatedPosts xs pg = []) \<and>
         (currentPage pg < 0 \<longrightarrow>
            selectPaginatedPosts xs pg =
              (let len = int (length xs);
                   startIndex = (currentPage pg - 1) * itemsPerPage pg;
                   endIndex = startIndex + itemsPerPage pg;
                   first = max (len + startIndex) 0;
                   last = max (len + endIndex) 0
               in take (nat (last - first)) (drop (nat first) xs)))"
proof (intro conjI impI)
  assume "currentPage pg = 0"
  then show "selectPaginatedPosts xs pg = []"
    using assms(2) by (simp add: selectPaginatedPosts_def array_slice_def Let_def)
next
  assume neg: "currentPage pg < 0"
  show "selectPaginatedPosts xs pg =
              (let len = int (length xs);
                   startIndex = (currentPage pg - 1) * itemsPerPage pg;
                   endIndex = startIndex + itemsPerPage pg;
                   first = max (len + startIndex) 0;
                   last = max (len + endIndex) 0
               in take (nat (last - first)) (drop (nat first) xs))"
  proof (cases "itemsPerPage pg = 0")
    case True
    then show ?thesis by (simp add: selectPaginatedPosts_def array_slice_def Let_def)
  next
    case False
    with assms(2) have pos: "0 < itemsPerPage pg" by simp
    have s: "(currentPage pg - 1) * itemsPerPage pg < 0"
      using neg pos by (simp add: mult_less_0_iff)
    have "(currentPage pg - 1) * itemsPerPage pg + itemsPerPage pg = currentPage pg * itemsPerPage pg"
      by (simp add: algebra_simps)
    moreover have "currentPage pg * itemsPerPage pg < 0"
      using neg pos by (simp add: mult_less_0_iff)
    ultimately have e: "(currentPage pg - 1) * itemsPerPage pg + itemsPerPage pg < 0" by simp
    show ?thesis using s e by (simp add: selectPaginatedPosts_def array_slice_def Let_def)
  qed
qed

theorem selectPaginatedPosts_page_below_one_witness:
  "currentPage \<lparr>currentPage = - 1, itemsPerPage = 10\<rparr> < 1 \<and>
   0 \<le> itemsPerPage \<lparr>currentPage = - 1, itemsPerPage = 10\<rparr> \<and>
   selectPaginatedPosts
     [0, 1, 2, 3, 4, 5, 6, 7, 8, 9, 10, 11, 12, 13, 14, 15, 16, 17, 18, 19, 20, 21, 22, 23, 24 :: nat]
     \<lparr>currentPage = - 1, itemsPerPage = 10\<rparr> = [5, 6, 7, 8, 9, 10, 11, 12, 13, 14] \<and>
   selectPaginatedPosts
     [0, 1, 2, 3, 4, 5, 6, 7, 8, 9, 10, 11, 12, 13, 14, 15, 16, 17, 18, 19, 20, 21, 22, 23, 24 :: nat]
     \<lparr>currentPage = 0, itemsPerPage = 10\<rparr> = []"
proof -
  let ?xs = "[0, 1, 2, 3, 4, 5, 6, 7, 8, 9, 10, 11, 12, 13, 14, 15, 16, 17, 18, 19, 20, 21, 22, 23, 24 :: nat]"
  have n: "currentPage \<lparr>currentPage = - 1, itemsPerPage = 10\<rparr> < 1"
    and z: "currentPage \<lparr>currentPage = 0, itemsPerPage = 10\<rparr> < 1"
    and sn: "0 \<le> itemsPerPage \<lparr>currentPage = - 1, itemsPerPage = 10\<rparr>"
    and sz: "0 \<le> itemsPerPage \<lparr>currentPage = 0, itemsPerPage = 10\<rparr>"
    by simp_all
  from selectPaginatedPosts_page_below_one [OF n sn, of ?xs]
  have a: "selectPaginatedPosts ?xs \<lparr>currentPage = - 1, itemsPerPage = 10\<rparr> =
      [5, 6, 7, 8, 9, 10, 11, 12, 13, 14]"
    by (simp add: Let_def)
  from selectPaginatedPosts_page_below_one [OF z sz, of ?xs]
  have b: "selectPaginatedPosts ?xs \<lparr>currentPage = 0, itemsPerPage = 10\<rparr> = []"
    by simp
  from n sn a b show ?thesis by simp
qed

text \<open>
  C4 as stated fails: page \<open>-1\<close> with page size 10 on 25 items is neither rejected,
  nor empty, nor the first page; it is the items at indices 5 to 14.
\<close>

theorem selectPaginatedPosts_negative_page_counterexample:
  "currentPage \<lparr>currentPage = - 1, itemsPerPage = 10\<rparr> < 1 \<and>
   selectPaginatedPosts
     [0, 1, 2, 3, 4, 5, 6, 7, 8, 9, 10, 11, 12, 13, 14, 15, 16, 17, 18, 19, 20, 21, 22, 23, 24 :: nat]
     \<lparr>currentPage = - 1, itemsPerPage = 10\<rparr> = [5, 6, 7, 8, 9, 10, 11, 12, 13, 14] \<and>
   selectPaginatedPosts
     [0, 1, 2, 3, 4, 5, 6, 7, 8, 9, 10, 11, 12, 13, 14, 15, 16, 17, 18, 19, 20, 21, 22, 23, 24 :: nat]
     \<lparr>currentPage = - 1, itemsPerPage = 10\<rparr> \<noteq> [] \<and>
   selectPaginatedPosts
     [0, 1, 2, 3, 4, 5, 6, 7, 8, 9, 10, 11, 12, 13, 14, 15, 16, 17, 18, 19, 20, 21, 22, 23, 24 :: nat]
     \<lparr>currentPage = - 1, itemsPerPage = 10\<rparr> \<noteq>
   selectPaginatedPosts
     [0, 1, 2, 3, 4, 5, 6, 7, 8, 9, 10, 11, 12, 13, 14, 15, 16, 17, 18, 19, 20, 21, 22, 23, 24 :: nat]
     \<lparr>currentPage = 1, itemsPerPage = 10\<rparr>"
  by (simp add: selectPaginatedPosts_def array_slice_def)

end
